theory Spec2Isabelle
  imports Complex_Main "HOL-Library.Multiset"
begin

section \<open>Multiple item dragging: the state machine of the story\<close>

text \<open>
  The component \<^verbatim>\<open>SelectableSortable\<close> of
  \<^verbatim>\<open>MultipleItemDragging.story.tsx\<close> keeps four pieces of React state
  (\<^verbatim>\<open>items\<close>, \<^verbatim>\<open>selectedItems\<close>, \<^verbatim>\<open>clonedItems\<close>,
  \<^verbatim>\<open>activeId\<close>) and one ref (\<^verbatim>\<open>activeContainerRef\<close>). Each handler is
  embedded as a function from the state before the event to the state after it.

  Conventions of the embedding:
  \<^item> \<^verbatim>\<open>Items = Record<string, string[]>\<close> is an association list in the order of
    \<^verbatim>\<open>Object.keys\<close>; \<^verbatim>\<open>items[key]\<close> is \<open>map_of\<close>, \<^verbatim>\<open>id in items\<close> is
    membership in the keys (identifiers are taken not to name a property of
    \<^verbatim>\<open>Object.prototype\<close>), and the spread \<^verbatim>\<open>{...items, [key]: value}\<close> is
    \<open>spread\<close>: an existing key keeps its place, a new one goes last. The only key a
    handler can add is \<^verbatim>\<open>'trash'\<close>.
  \<^item> A handler runs on the state of the latest render: the \<^verbatim>\<open>items\<close>,
    \<^verbatim>\<open>selectedItems\<close> and \<^verbatim>\<open>activeId\<close> of its closure are those of the state it
    updates.
  \<^item> Array indices are \<open>int\<close>, since \<^verbatim>\<open>indexOf\<close> answers \<open>-1\<close>.
  \<^item> JavaScript truthiness is written out: \<^verbatim>\<open>!x\<close> holds of \<^verbatim>\<open>undefined\<close>,
    \<^verbatim>\<open>null\<close> and of the empty string.
  \<^item> At run time a \<^verbatim>\<open>string[]\<close> can hold \<^verbatim>\<open>undefined\<close>: the handlers store what
    an array read gives, and a read at index \<open>-1\<close> gives \<^verbatim>\<open>undefined\<close>. The elements
    of a sequence are therefore \<open>Item\<close> of a string or \<open>Undefined\<close>.
  \<^item> A handler answers \<open>Inr\<close> the next state, or \<open>Inl TypeError\<close> where the source
    reads a property of \<^verbatim>\<open>undefined\<close> (a container key that is not in the mapping)
    and throws.
  \<^item> What the sources do not fix is a parameter, the \<open>platform\<close>: what the imported
    \<^verbatim>\<open>arrayMove\<close> answers for a position outside the sequence, and how the
    subtraction and the division of \<^verbatim>\<open>isBelowLastItem\<close> round. Coordinates are
    finite doubles, which are real numbers; comparing them is exact.
\<close>

subsection \<open>Data\<close>

datatype item = Item string | Undefined

type_synonym Items = "(string \<times> item list) list"

datatype fault = TypeError

record clientRect =
  top' :: real
  bottom :: real
  left :: real
  right :: real
  width :: real
  height :: real

record over =
  id' :: string
  clientRect :: clientRect

record state =
  items :: Items
  selectedItems :: "string list"
  clonedItems :: "Items option"
  activeId :: "string option"
  activeContainerRef :: "string option"

datatype event =
    Start string
  | Move "over option" clientRect
  | End "over option"
  | Cancel
  | Select string bool
  | DocumentClick string string

record platform =
  arrayMoveOutside :: "item list \<Rightarrow> int \<Rightarrow> int \<Rightarrow> item list"
  subDouble :: "real \<Rightarrow> real \<Rightarrow> real"
  divDouble :: "real \<Rightarrow> real \<Rightarrow> real"

definition TRASH_DROPPABLE_ID :: string where
  "TRASH_DROPPABLE_ID = ''trash''"

subsection \<open>Objects and arrays of the language\<close>

text \<open>\<^verbatim>\<open>{...items, [key]: value}\<close>\<close>

fun spread :: "Items \<Rightarrow> string \<Rightarrow> item list \<Rightarrow> Items" where
  "spread [] key v = [(key, v)]"
| "spread ((k, w) # rest) key v =
     (if k = key then (k, v) # rest else (k, w) # spread rest key v)"

text \<open>\<^verbatim>\<open>array.indexOf(x)\<close>\<close>

fun indexOf :: "'a list \<Rightarrow> 'a \<Rightarrow> int" where
  "indexOf [] x = - 1"
| "indexOf (y # ys) x =
     (if y = x then 0 else (let i = indexOf ys x in if i < 0 then - 1 else i + 1))"

text \<open>
  \<^verbatim>\<open>array.slice(begin, end)\<close>: a negative position counts from the end, and both are
  clamped to the array.
\<close>

definition clampIndex :: "'a list \<Rightarrow> int \<Rightarrow> nat" where
  "clampIndex array i =
     (if i < 0 then nat (max (int (length array) + i) 0) else min (nat i) (length array))"

definition slice :: "'a list \<Rightarrow> int \<Rightarrow> int \<Rightarrow> 'a list" where
  "slice array b e =
     take (clampIndex array e - clampIndex array b) (drop (clampIndex array b) array)"

text \<open>\<^verbatim>\<open>array.splice(start, 0, ...elements)\<close>, as the array it leaves behind.\<close>

definition spliceInsert :: "'a list \<Rightarrow> int \<Rightarrow> 'a list \<Rightarrow> 'a list" where
  "spliceInsert array start elements =
     take (clampIndex array start) array @ elements @ drop (clampIndex array start) array"

text \<open>\<^verbatim>\<open>array[i]\<close>: outside the array the read gives \<^verbatim>\<open>undefined\<close>.\<close>

definition elementAt :: "item list \<Rightarrow> int \<Rightarrow> item" where
  "elementAt array i = (if 0 \<le> i \<and> i < int (length array) then array ! nat i else Undefined)"

text \<open>\<^verbatim>\<open>!x\<close> for \<^verbatim>\<open>x: string | undefined | null\<close>\<close>

definition falsy :: "string option \<Rightarrow> bool" where
  "falsy x = (case x of None \<Rightarrow> True | Some str \<Rightarrow> str = [])"

subsection \<open>Imported helpers\<close>

text \<open>
  Modelled from the spec: \<^verbatim>\<open>arrayMove\<close> is imported from
  \<^verbatim>\<open>@dnd-kit/sortable\<close> and its body is not among the sources. The spec (4.4) calls it
  "a stable array move" that moves "the active item to overIndex within the target
  container (reordering the sequence accordingly)": the element at position
  \<open>fromIndex\<close> is taken out and put back at position \<open>toIndex\<close>, the others keep their
  order. The spec says nothing about positions outside the sequence; the model
  answers \<open>None\<close> there, and a call of \<^verbatim>\<open>arrayMove\<close> in a handler, \<open>arrayMoveCall\<close>,
  then takes what the platform answers.
\<close>

definition arrayMove :: "'a list \<Rightarrow> int \<Rightarrow> int \<Rightarrow> 'a list option" where
  "arrayMove array fromIndex toIndex =
     (if 0 \<le> fromIndex \<and> fromIndex < int (length array) \<and>
         0 \<le> toIndex \<and> toIndex < int (length array)
      then (let rest = take (nat fromIndex) array @ drop (Suc (nat fromIndex)) array
            in Some (take (nat toIndex) rest @ [array ! nat fromIndex] @ drop (nat toIndex) rest))
      else None)"

definition arrayMoveCall :: "platform \<Rightarrow> item list \<Rightarrow> int \<Rightarrow> int \<Rightarrow> item list" where
  "arrayMoveCall p array fromIndex toIndex =
     (case arrayMove array fromIndex toIndex of
        Some moved \<Rightarrow> moved
      | None \<Rightarrow> arrayMoveOutside p array fromIndex toIndex)"

text \<open>
  Modelled from the spec: \<^verbatim>\<open>rectIntersection\<close> is imported from
  \<^verbatim>\<open>@dnd-kit/core\<close> and its body is not among the sources. The spec (4.3) says of it
  that a registered rectangle that "overlaps the dragged region (any non-zero
  intersection)" is reported, and that without an overlap there is no winner. Two
  rectangles have a non-zero intersection when the rectangle they share has positive
  width and positive height. Among several overlapping candidates the spec names none;
  the model reports the first registered one.
\<close>

definition intersects :: "clientRect \<Rightarrow> clientRect \<Rightarrow> bool" where
  "intersects entry target =
     (max (left target) (left entry) < min (right target) (right entry) \<and>
      max (top' target) (top' entry) < min (bottom target) (bottom entry))"

fun rectIntersection :: "(string \<times> clientRect) list \<Rightarrow> clientRect \<Rightarrow> string option" where
  "rectIntersection [] target = None"
| "rectIntersection ((ident, entry) # rest) target =
     (if intersects entry target then Some ident else rectIntersection rest target)"

subsection \<open>The collision detection strategy\<close>

text \<open>
  \<^verbatim>\<open>customCollisionDetectionStrategy\<close>. The imported \<^verbatim>\<open>closestRect\<close> is a parameter:
  nothing below depends on what it answers.
\<close>

definition customCollisionDetectionStrategy ::
  "((string \<times> clientRect) list \<Rightarrow> clientRect \<Rightarrow> string option) \<Rightarrow>
   (string \<times> clientRect) list \<Rightarrow> clientRect \<Rightarrow> string option" where
  "customCollisionDetectionStrategy closestRect clientRects rect =
     (let trashRect = filter (\<lambda>(ident, r). ident = TRASH_DROPPABLE_ID) clientRects
      in if \<not> falsy (rectIntersection trashRect rect) then Some TRASH_DROPPABLE_ID
         else (let otherRects = filter (\<lambda>(ident, r). ident \<noteq> TRASH_DROPPABLE_ID) clientRects
               in closestRect otherRects rect))"

subsection \<open>Membership queries\<close>

text \<open>\<^verbatim>\<open>findContainer\<close>\<close>

definition findContainer :: "Items \<Rightarrow> string \<Rightarrow> string option" where
  "findContainer its ident =
     (if ident \<in> set (map fst its) then Some ident
      else find (\<lambda>key. case map_of its key of None \<Rightarrow> False | Some seq \<Rightarrow> Item ident \<in> set seq)
             (map fst its))"

subsection \<open>Selection\<close>

text \<open>\<^verbatim>\<open>isItemSelected\<close>, \<^verbatim>\<open>onSelectionChanged\<close> and the document's click listener.\<close>

definition isItemSelected :: "state \<Rightarrow> string \<Rightarrow> bool" where
  "isItemSelected s itemId = (itemId \<in> set (selectedItems s))"

definition onSelectionChanged :: "state \<Rightarrow> string \<Rightarrow> bool \<Rightarrow> state" where
  "onSelectionChanged s ident isShiftSelect =
     (if isShiftSelect then
        (if isItemSelected s ident
         then s\<lparr>selectedItems := filter (\<lambda>itemId. itemId \<noteq> ident) (selectedItems s)\<rparr>
         else s\<lparr>selectedItems := selectedItems s @ [ident]\<rparr>)
      else s\<lparr>selectedItems := []\<rparr>)"

definition clearSelection :: "state \<Rightarrow> string \<Rightarrow> string \<Rightarrow> state" where
  "clearSelection s nodeName parentNodeName =
     (if nodeName \<noteq> ''LI'' \<and> parentNodeName \<noteq> ''LI''
      then s\<lparr>selectedItems := []\<rparr> else s)"

subsection \<open>The drag handlers\<close>

text \<open>
  The reducer of \<^verbatim>\<open>onDragStart\<close>: \<^verbatim>\<open>selectedItems.reduce((ret, selectedItem) => ..., items)\<close>.
  \<open>findContainer\<close> reads the items of the closure, the filter reads the accumulator.
\<close>

fun removeSelected :: "Items \<Rightarrow> string \<Rightarrow> string list \<Rightarrow> Items \<Rightarrow> fault + Items" where
  "removeSelected its active [] ret = Inr ret"
| "removeSelected its active (selectedItem # rest) ret =
     (if selectedItem = active then removeSelected its active rest ret
      else (case findContainer its selectedItem of
              None \<Rightarrow> removeSelected its active rest ret
            | Some container \<Rightarrow>
                if container = [] then removeSelected its active rest ret
                else (case map_of ret container of
                        None \<Rightarrow> Inl TypeError
                      | Some seq \<Rightarrow>
                          removeSelected its active rest
                            (spread ret container
                               (filter (\<lambda>item. item \<noteq> Item selectedItem) seq)))))"

definition onDragStart :: "state \<Rightarrow> string \<Rightarrow> fault + state" where
  "onDragStart s active =
     (let s1 = s\<lparr>activeId := Some active, clonedItems := Some (items s)\<rparr>;
          s2 = (if selectedItems s \<noteq> [] \<and> \<not> isItemSelected s active
                then s1\<lparr>selectedItems := selectedItems s @ [active]\<rparr> else s1);
          s3 = s2\<lparr>activeContainerRef := findContainer (items s) active\<rparr>
      in if length (selectedItems s) > 0
         then (case removeSelected (items s) active (selectedItems s) (items s) of
                 Inl f \<Rightarrow> Inl f
               | Inr newItems \<Rightarrow> Inr (s3\<lparr>items := newItems\<rparr>))
         else Inr s3)"

definition onDragOver :: "platform \<Rightarrow> state \<Rightarrow> over option \<Rightarrow> clientRect \<Rightarrow> fault + state" where
  "onDragOver p s overOpt draggingRect =
     (case overOpt of
        None \<Rightarrow> Inr s
      | Some ov \<Rightarrow>
          (let overContainer = findContainer (items s) (id' ov);
               activeContainer = activeContainerRef s
           in if falsy overContainer \<or> falsy activeContainer \<or> falsy (activeId s) then Inr s
              else if activeContainer \<noteq> overContainer then
                (case (map_of (items s) (the activeContainer),
                       map_of (items s) (the overContainer)) of
                   (Some activeItems, Some overItems) \<Rightarrow>
                     (let activeIndex = indexOf activeItems (Item (the (activeId s)));
                          overIndex = indexOf overItems (Item (id' ov));
                          isBelowLastItem =
                            (overIndex = int (length overItems) - 1 \<and>
                             top' draggingRect >
                               subDouble p (bottom (clientRect ov))
                                 (divDouble p (height (clientRect ov)) 2));
                          modifier = (if isBelowLastItem then 1 else 0);
                          newIndex = (if overIndex \<ge> 0 then overIndex + modifier
                                      else int (length overItems) + 1)
                      in Inr (s\<lparr>activeContainerRef := overContainer,
                                items :=
                                  spread
                                    (spread (items s) (the activeContainer)
                                       (filter (\<lambda>item. item \<noteq> Item (the (activeId s))) activeItems))
                                    (the overContainer)
                                    (slice overItems 0 newIndex @
                                     [elementAt activeItems activeIndex] @
                                     slice overItems newIndex (int (length overItems)))\<rparr>))
                 | _ \<Rightarrow> Inl TypeError)
              else Inr s))"

definition onDragEnd :: "platform \<Rightarrow> state \<Rightarrow> over option \<Rightarrow> fault + state" where
  "onDragEnd p s overOpt =
     (if falsy (activeId s) then Inr s
      else (let activeContainer = activeContainerRef s
            in if overOpt = None \<or> falsy activeContainer then Inr (s\<lparr>activeId := None\<rparr>)
               else if id' (the overOpt) = TRASH_DROPPABLE_ID
               then Inr (s\<lparr>items := spread (items s) TRASH_DROPPABLE_ID [], activeId := None\<rparr>)
               else (let overContainer = findContainer (items s) (id' (the overOpt))
                     in if \<not> falsy activeContainer \<and> \<not> falsy overContainer then
                          (case (map_of (items s) (the activeContainer),
                                 map_of (items s) (the overContainer)) of
                             (Some activeItems, Some overItems) \<Rightarrow>
                               (let activeIndex = indexOf activeItems (Item (the (activeId s)));
                                    overIndex = indexOf overItems (Item (id' (the overOpt)))
                                in if length (selectedItems s) > 0 then
                                     Inr (s\<lparr>items :=
                                              spread (items s) (the overContainer)
                                                (spliceInsert
                                                   (arrayMoveCall p overItems activeIndex overIndex)
                                                   (overIndex + 1)
                                                   (map Item
                                                      (filter (\<lambda>item. item \<noteq> the (activeId s))
                                                         (selectedItems s)))),
                                            activeId := None\<rparr>)
                                   else if activeIndex \<noteq> overIndex then
                                     Inr (s\<lparr>items :=
                                              spread (items s) (the overContainer)
                                                (arrayMoveCall p overItems activeIndex overIndex),
                                            activeId := None\<rparr>)
                                   else Inr (s\<lparr>activeId := None\<rparr>))
                           | _ \<Rightarrow> Inl TypeError)
                        else Inr (s\<lparr>activeId := None\<rparr>))))"

definition onDragCancel :: "state \<Rightarrow> state" where
  "onDragCancel s =
     (let s1 = (case clonedItems s of None \<Rightarrow> s | Some cloned \<Rightarrow> s\<lparr>items := cloned\<rparr>)
      in s1\<lparr>activeId := None, clonedItems := None\<rparr>)"

subsection \<open>Runs of events\<close>

definition handle :: "platform \<Rightarrow> state \<Rightarrow> event \<Rightarrow> fault + state" where
  "handle p s e =
     (case e of
        Start active \<Rightarrow> onDragStart s active
      | Move overOpt draggingRect \<Rightarrow> onDragOver p s overOpt draggingRect
      | End overOpt \<Rightarrow> onDragEnd p s overOpt
      | Cancel \<Rightarrow> Inr (onDragCancel s)
      | Select ident isShiftSelect \<Rightarrow> Inr (onSelectionChanged s ident isShiftSelect)
      | DocumentClick nodeName parentNodeName \<Rightarrow> Inr (clearSelection s nodeName parentNodeName))"

fun run :: "platform \<Rightarrow> event list \<Rightarrow> state \<Rightarrow> fault + state" where
  "run p [] s = Inr s"
| "run p (e # es) s = (case handle p s e of Inl f \<Rightarrow> Inl f | Inr s' \<Rightarrow> run p es s')"

subsection \<open>The initial state\<close>

text \<open>
  The initial values of the four \<^verbatim>\<open>useState\<close> hooks and of the ref. Without
  \<^verbatim>\<open>parentItems\<close> the mapping is built by \<^verbatim>\<open>createRange\<close> for the default
  \<^verbatim>\<open>itemCount = 3\<close>.
\<close>

definition defaultItems :: Items where
  "defaultItems =
     [(''A'', [Item ''A0'', Item ''A1'', Item ''A2'']), (''B'', [Item ''B0'', Item ''B1'', Item ''B2'']),
      (''C'', [Item ''C0'', Item ''C1'', Item ''C2'']), (TRASH_DROPPABLE_ID, [])]"

definition initialState :: "Items option \<Rightarrow> state" where
  "initialState parentItems =
     \<lparr>items = (case parentItems of None \<Rightarrow> defaultItems | Some given \<Rightarrow> given),
      selectedItems = [], clonedItems = None, activeId = None, activeContainerRef = None\<rparr>"

subsection \<open>Notions used to state the properties\<close>


fun idsOf :: "item list \<Rightarrow> string list" where
  "idsOf [] = []"
| "idsOf (Item x # rest) = x # idsOf rest"
| "idsOf (Undefined # rest) = idsOf rest"









text \<open>
  During a gesture the tracking container is a key of the mapping: the condition under
  which \<^verbatim>\<open>onDragOver\<close> and \<^verbatim>\<open>onDragEnd\<close> do not throw.
\<close>

definition refKnown :: "state \<Rightarrow> bool" where
  "refKnown s =
     (falsy (activeId s) \<or> falsy (activeContainerRef s) \<or>
      the (activeContainerRef s) \<in> set (map fst (items s)))"



text \<open>
  For the examples: a rectangle as the layout reports it, from its left edge, its top
  edge, its width and its height; and a platform that rounds nothing and whose
  \<^verbatim>\<open>arrayMove\<close> leaves the array as it is outside the sequence.
\<close>

definition rectangle :: "real \<Rightarrow> real \<Rightarrow> real \<Rightarrow> real \<Rightarrow> clientRect" where
  "rectangle x y w h =
     \<lparr>top' = y, bottom = y + h, left = x, right = x + w, width = w, height = h\<rparr>"

definition examplePlatform :: platform where
  "examplePlatform =
     \<lparr>arrayMoveOutside = (\<lambda>array fromIndex toIndex. array),
      subDouble = (\<lambda>a b. a - b), divDouble = (\<lambda>a b. a / b)\<rparr>"

section \<open>Properties of the handlers\<close>

lemmas handler_defs =
  handle_def onDragStart_def onDragOver_def onDragEnd_def onDragCancel_def
  onSelectionChanged_def clearSelection_def isItemSelected_def findContainer_def falsy_def
  arrayMove_def arrayMoveCall_def elementAt_def slice_def spliceInsert_def clampIndex_def
  TRASH_DROPPABLE_ID_def initialState_def defaultItems_def examplePlatform_def Let_def

subsection \<open>Arrays and objects\<close>

lemma map_of_spread: "map_of (spread its key v) k = (if k = key then Some v else map_of its k)"
  by (induction its key v rule: spread.induct) auto

lemma keys_spread:
  "map fst (spread its k v) = (if k \<in> set (map fst its) then map fst its else map fst its @ [k])"
  by (induction its k v rule: spread.induct) auto


lemma keys_spread_superset:
  "set (map fst its) \<subseteq> set (map fst ret) \<Longrightarrow> set (map fst its) \<subseteq> set (map fst (spread ret c v))"
  by (auto simp: keys_spread)

lemma key_kept_by_spread: "c \<in> set (map fst its) \<Longrightarrow> c \<in> set (map fst (spread its k v))"
  by (auto simp: keys_spread)

lemma spread_same: "map_of its k = Some v \<Longrightarrow> spread its k v = its"
  by (induction its k v rule: spread.induct) (auto split: if_splits)

lemma slice_from_0: "0 \<le> n \<Longrightarrow> slice xs 0 n = take (nat n) xs"
  by (auto simp: slice_def clampIndex_def min_def)

lemma slice_to_end: "0 \<le> n \<Longrightarrow> slice xs n (int (length xs)) = drop (nat n) xs"
  by (auto simp: slice_def clampIndex_def min_def)

lemma indexOf_neg_iff: "indexOf xs x < 0 \<longleftrightarrow> x \<notin> set xs"
  by (induction xs) (auto simp: Let_def)

lemma indexOf_notin: "x \<notin> set xs \<Longrightarrow> indexOf xs x = - 1"
  by (induction xs) (auto simp: Let_def)

lemma indexOf_lt_length: "indexOf xs x < int (length xs)"
  by (induction xs) (auto simp: Let_def)

lemma indexOf_range:
  "x \<in> set xs \<Longrightarrow> 0 \<le> indexOf xs x \<and> indexOf xs x < int (length xs)"
  using indexOf_neg_iff [of xs x] indexOf_lt_length [of xs x] by simp

lemma nth_indexOf: "x \<in> set xs \<Longrightarrow> xs ! nat (indexOf xs x) = x"
proof (induction xs)
  case Nil then show ?case by simp
next
  case (Cons y ys)
  show ?case
  proof (cases "y = x")
    case True then show ?thesis by simp
  next
    case False
    with Cons have "x \<in> set ys" by simp
    then have "0 \<le> indexOf ys x" using indexOf_neg_iff [of ys x] by simp
    moreover have "ys ! nat (indexOf ys x) = x" using Cons.IH \<open>x \<in> set ys\<close> by simp
    ultimately show ?thesis using False by (simp add: Let_def nat_add_distrib)
  qed
qed

lemma elementAt_indexOf:
  "elementAt xs (indexOf xs x) = (if x \<in> set xs then x else Undefined)"
  using indexOf_range [of x xs] nth_indexOf [of x xs] indexOf_notin [of x xs]
  by (auto simp: elementAt_def)


lemma idsOf_map_Id: "idsOf (map Item xs) = xs"
  by (induction xs) auto










lemma arrayMove_same:
  assumes "0 \<le> i" and "i < int (length xs)"
  shows "arrayMove xs i i = Some xs"
proof -
  let ?rest = "take (nat i) xs @ drop (Suc (nat i)) xs"
  from assms have n: "nat i < length xs" by simp
  have "take (nat i) ?rest = take (nat i) xs" using n by simp
  moreover have "drop (nat i) ?rest = drop (Suc (nat i)) xs" using n by simp
  ultimately have "take (nat i) ?rest @ [xs ! nat i] @ drop (nat i) ?rest = xs"
    using n by (simp add: id_take_nth_drop [symmetric])
  with assms show ?thesis by (simp add: arrayMove_def Let_def)
qed



lemma arrayMoveCall_same:
  "x \<in> set xs \<Longrightarrow> arrayMoveCall p xs (indexOf xs x) (indexOf xs x) = xs"
  using indexOf_range [of x xs] by (simp add: arrayMoveCall_def arrayMove_same)

lemma two_orders:
  assumes "distinct sel" and "set sel = {a, b}" and "a \<noteq> b"
  shows "sel = [a, b] \<or> sel = [b, a]"
proof -
  from assms have "length sel = 2" using distinct_card [of sel] by simp
  then obtain x y where sel: "sel = [x, y]"
    by (auto simp: length_Suc_conv numeral_2_eq_2)
  with assms(2) have "{x, y} = {a, b}" by simp
  then have "x = a \<and> y = b \<or> x = b \<and> y = a" by (simp add: doubleton_eq_iff)
  with sel show ?thesis by auto
qed

subsection \<open>What each handler changes\<close>

lemma run_append:
  "run p (es @ fs) s = (case run p es s of Inl f \<Rightarrow> Inl f | Inr s' \<Rightarrow> run p fs s')"
  by (induction es arbitrary: s) (auto split: sum.splits)

lemma findContainer_key: "findContainer its x = Some c \<Longrightarrow> c \<in> set (map fst its)"
  by (auto simp: findContainer_def find_Some_iff split: if_splits)

lemma map_of_key: "c \<in> set (map fst its) \<Longrightarrow> \<exists>seq. map_of its c = Some seq"
  by (metis map_of_eq_None_iff not_Some_eq set_map)

lemma removeSelected_keys:
  "set (map fst its) \<subseteq> set (map fst ret) \<Longrightarrow>
   \<exists>r. removeSelected its a sel ret = Inr r \<and> set (map fst r) = set (map fst ret)"
proof (induction its a sel ret rule: removeSelected.induct)
  case (1 its active ret)
  then show ?case by simp
next
  case (2 its active selectedItem rest ret)
  show ?case
  proof (cases "selectedItem = active")
    case True
    with 2 show ?thesis by simp
  next
    case ne: False
    show ?thesis
    proof (cases "findContainer its selectedItem")
      case None
      with 2 ne show ?thesis by simp
    next
      case (Some c)
      show ?thesis
      proof (cases "c = []")
        case True
        with 2 ne Some show ?thesis by simp
      next
        case False
        from Some have "c \<in> set (map fst its)" by (rule findContainer_key)
        with "2.prems" have c: "c \<in> set (map fst ret)" by (rule subsetD)
        from map_of_key [OF this] obtain seq where seq: "map_of ret c = Some seq" by (rule exE)
        have same: "set (map fst (spread ret c (filter (\<lambda>item. item \<noteq> Item selectedItem) seq)))
                      = set (map fst ret)"
          using c by (simp add: keys_spread)
        from "2.IH"(4) [OF ne Some False seq keys_spread_superset [OF "2.prems"]]
        show ?thesis using ne Some False seq same by simp
      qed
    qed
  qed
qed

lemma onDragStart_total: "\<exists>s'. onDragStart s a = Inr s'"
proof -
  from removeSelected_keys [of "items s" "items s" a "selectedItems s"]
  obtain r where "removeSelected (items s) a (selectedItems s) (items s) = Inr r" by auto
  then show ?thesis by (simp add: onDragStart_def Let_def)
qed

lemma onDragStart_no_selection:
  "selectedItems s = [] \<Longrightarrow>
   onDragStart s a = Inr (s\<lparr>activeId := Some a, clonedItems := Some (items s),
                            activeContainerRef := findContainer (items s) a\<rparr>)"
  by (simp add: onDragStart_def Let_def)

lemma onDragStart_selectedItems:
  "onDragStart s a = Inr s' \<Longrightarrow>
   selectedItems s' = (if selectedItems s \<noteq> [] \<and> a \<notin> set (selectedItems s)
                       then selectedItems s @ [a] else selectedItems s)"
  by (auto simp: onDragStart_def Let_def isItemSelected_def split: if_splits sum.splits)

lemma onDragStart_clonedItems:
  "onDragStart s a = Inr s' \<Longrightarrow> clonedItems s' = Some (items s)"
  by (auto simp: onDragStart_def Let_def split: if_splits sum.splits)

lemma onDragStart_refKnown:
  assumes "onDragStart s a = Inr s'"
  shows "refKnown s'"
proof (cases "findContainer (items s) a")
  case None
  with assms have "activeContainerRef s' = None"
    by (auto simp: onDragStart_def Let_def split: if_splits sum.splits)
  then show ?thesis by (simp add: refKnown_def falsy_def)
next
  case (Some c)
  have ref: "activeContainerRef s' = Some c"
    using assms Some by (auto simp: onDragStart_def Let_def split: if_splits sum.splits)
  have "set (map fst (items s')) = set (map fst (items s))"
  proof (cases "selectedItems s = []")
    case True
    with assms show ?thesis by (auto simp: onDragStart_no_selection)
  next
    case False
    from removeSelected_keys [of "items s" "items s" a "selectedItems s"]
    obtain r where r: "removeSelected (items s) a (selectedItems s) (items s) = Inr r"
      and k: "set (map fst r) = set (map fst (items s))" by auto
    from assms False r have "items s' = r" by (auto simp: onDragStart_def Let_def)
    with k show ?thesis by simp
  qed
  with findContainer_key [OF Some] ref show ?thesis by (simp add: refKnown_def)
qed

text \<open>The two outcomes of \<^verbatim>\<open>onDragOver\<close>: nothing, or the move across containers.\<close>

lemma onDragOver_cases:
  assumes "onDragOver p s ovo r = Inr s'"
  shows "s' = s \<or>
    (\<exists>ac oc activeItems overItems a n.
        activeId s = Some a \<and> ac \<noteq> oc \<and> oc \<in> set (map fst (items s)) \<and>
        map_of (items s) ac = Some activeItems \<and> map_of (items s) oc = Some overItems \<and>
        s' = s\<lparr>activeContainerRef := Some oc,
               items := spread (spread (items s) ac (filter (\<lambda>item. item \<noteq> Item a) activeItems)) oc
                          (take n overItems @
                           [if Item a \<in> set activeItems then Item a else Undefined] @
                           drop n overItems)\<rparr>)"
proof (cases ovo)
  case None
  with assms show ?thesis by (simp add: onDragOver_def)
next
  case (Some ov)
  show ?thesis
  proof (cases "falsy (findContainer (items s) (id' ov)) \<or> falsy (activeContainerRef s) \<or> falsy (activeId s)
                \<or> activeContainerRef s = findContainer (items s) (id' ov)")
    case True
    with assms Some have "s' = s" by (simp add: onDragOver_def Let_def split: if_splits)
    then show ?thesis by simp
  next
    case False
    then obtain oc ac a where oc: "findContainer (items s) (id' ov) = Some oc"
      and ac: "activeContainerRef s = Some ac" and a: "activeId s = Some a" and ne: "ac \<noteq> oc"
      and truthy: "oc \<noteq> []" "ac \<noteq> []" "a \<noteq> []"
      by (auto simp: falsy_def split: option.splits)
    from assms Some ne truthy oc ac a obtain activeItems overItems where
      m1: "map_of (items s) ac = Some activeItems" and m2: "map_of (items s) oc = Some overItems"
      by (auto simp: onDragOver_def Let_def falsy_def split: option.splits)
    define newIndex where "newIndex =
       (if indexOf overItems (Item (id' ov)) \<ge> 0 then indexOf overItems (Item (id' ov)) +
          (if indexOf overItems (Item (id' ov)) = int (length overItems) - 1 \<and>
              top' r > subDouble p (bottom (clientRect ov)) (divDouble p (height (clientRect ov)) 2)
           then 1 else 0)
        else int (length overItems) + 1)"
    have n0: "0 \<le> newIndex" by (auto simp: newIndex_def)
    have "s' = s\<lparr>activeContainerRef := Some oc,
               items := spread (spread (items s) ac (filter (\<lambda>item. item \<noteq> Item a) activeItems)) oc
                          (slice overItems 0 newIndex @
                           [elementAt activeItems (indexOf activeItems (Item a))] @
                           slice overItems newIndex (int (length overItems)))\<rparr>"
      using assms Some oc ac a ne truthy m1 m2
      unfolding newIndex_def
      by (simp add: onDragOver_def Let_def falsy_def split del: if_split)
    then have "s' = s\<lparr>activeContainerRef := Some oc,
               items := spread (spread (items s) ac (filter (\<lambda>item. item \<noteq> Item a) activeItems)) oc
                          (take (nat newIndex) overItems @
                           [if Item a \<in> set activeItems then Item a else Undefined] @
                           drop (nat newIndex) overItems)\<rparr>"
      by (simp only: slice_from_0 [OF n0] slice_to_end [OF n0] elementAt_indexOf)
    with a ne m1 m2 findContainer_key [OF oc] show ?thesis by blast
  qed
qed

lemma onDragOver_selectedItems:
  "onDragOver p s ovo r = Inr s' \<Longrightarrow> selectedItems s' = selectedItems s"
  by (drule onDragOver_cases) auto

lemma onDragOver_clonedItems:
  "onDragOver p s ovo r = Inr s' \<Longrightarrow> clonedItems s' = clonedItems s"
  by (drule onDragOver_cases) auto

lemma onDragOver_refKnown:
  assumes "onDragOver p s ovo r = Inr s'" and "refKnown s"
  shows "refKnown s'"
  using onDragOver_cases [OF assms(1)]
proof (elim disjE exE conjE)
  assume "s' = s" with assms(2) show ?thesis by simp
next
  fix ac oc activeItems overItems a n
  assume oc: "oc \<in> set (map fst (items s))"
    and s': "s' = s\<lparr>activeContainerRef := Some oc,
               items := spread (spread (items s) ac (filter (\<lambda>item. item \<noteq> Item a) activeItems)) oc
                          (take n overItems @
                           [if Item a \<in> set activeItems then Item a else Undefined] @
                           drop n overItems)\<rparr>"
  from oc have "oc \<in> set (map fst (spread (spread (items s) ac
                  (filter (\<lambda>item. item \<noteq> Item a) activeItems)) oc
                  (take n overItems @ [if Item a \<in> set activeItems then Item a else Undefined] @
                   drop n overItems)))"
    by (intro key_kept_by_spread)
  then show ?thesis unfolding s' by (simp add: refKnown_def)
qed

lemma onDragOver_total:
  assumes "refKnown s"
  shows "\<exists>s'. onDragOver p s ovo r = Inr s'"
proof (cases ovo)
  case None
  then show ?thesis by (simp add: onDragOver_def)
next
  case (Some ov)
  show ?thesis
  proof (cases "falsy (findContainer (items s) (id' ov)) \<or> falsy (activeContainerRef s) \<or> falsy (activeId s)
                \<or> activeContainerRef s = findContainer (items s) (id' ov)")
    case True
    with Some show ?thesis by (auto simp: onDragOver_def Let_def)
  next
    case False
    then obtain oc ac a where oc: "findContainer (items s) (id' ov) = Some oc"
      and ac: "activeContainerRef s = Some ac" and a: "activeId s = Some a" and ne: "ac \<noteq> oc"
      and truthy: "oc \<noteq> []" "ac \<noteq> []" "a \<noteq> []"
      by (auto simp: falsy_def split: option.splits)
    from assms ac a truthy have "ac \<in> set (map fst (items s))"
      by (simp add: refKnown_def falsy_def)
    from map_of_key [OF this] obtain activeItems where
      m1: "map_of (items s) ac = Some activeItems" by (rule exE)
    from map_of_key [OF findContainer_key [OF oc]] obtain overItems where
      m2: "map_of (items s) oc = Some overItems" by (rule exE)
    show ?thesis
      using Some oc ac a ne truthy m1 m2
      by (simp add: onDragOver_def Let_def falsy_def split del: if_split)
  qed
qed

lemma onDragEnd_selectedItems:
  "onDragEnd p s ovo = Inr s' \<Longrightarrow> selectedItems s' = selectedItems s"
  by (auto simp: onDragEnd_def Let_def split: if_splits option.splits)


lemma onDragEnd_idle:
  "onDragEnd p s ovo = Inr s' \<Longrightarrow> falsy (activeId s')"
  by (auto simp: onDragEnd_def Let_def falsy_def split: if_splits option.splits)


lemma onDragEnd_total:
  assumes "refKnown s"
  shows "\<exists>s'. onDragEnd p s ovo = Inr s'"
proof (cases "falsy (activeId s) \<or> ovo = None \<or> falsy (activeContainerRef s) \<or>
              id' (the ovo) = TRASH_DROPPABLE_ID \<or>
              falsy (findContainer (items s) (id' (the ovo)))")
  case True
  then show ?thesis by (auto simp: onDragEnd_def Let_def)
next
  case False
  then obtain ov a c oc where o: "ovo = Some ov" and a: "activeId s = Some a" "a \<noteq> []"
    and c: "activeContainerRef s = Some c" "c \<noteq> []" and nt: "id' ov \<noteq> TRASH_DROPPABLE_ID"
    and oc: "findContainer (items s) (id' ov) = Some oc" "oc \<noteq> []"
    by (auto simp: falsy_def split: option.splits)
  from assms a c have "c \<in> set (map fst (items s))" by (simp add: refKnown_def falsy_def)
  from map_of_key [OF this] obtain activeItems where
    m1: "map_of (items s) c = Some activeItems" by (rule exE)
  from map_of_key [OF findContainer_key [OF oc(1)]] obtain overItems where
    m2: "map_of (items s) oc = Some overItems" by (rule exE)
  show ?thesis
    using o a c nt oc m1 m2 by (simp add: onDragEnd_def Let_def falsy_def)
qed

lemma handle_total:
  assumes "refKnown s"
  shows "\<exists>s'. handle p s e = Inr s' \<and> refKnown s'"
proof (cases e)
  case (Start a)
  from onDragStart_total obtain s' where s': "onDragStart s a = Inr s'" by blast
  with onDragStart_refKnown [OF s'] Start show ?thesis by (simp add: handle_def)
next
  case (Move ovo r)
  from onDragOver_total [OF assms] obtain s' where s': "onDragOver p s ovo r = Inr s'" by blast
  with onDragOver_refKnown [OF s' assms] Move show ?thesis by (simp add: handle_def)
next
  case (End ovo)
  from onDragEnd_total [OF assms] obtain s' where s': "onDragEnd p s ovo = Inr s'" by blast
  from onDragEnd_idle [OF s'] have "refKnown s'" by (simp add: refKnown_def)
  with s' End show ?thesis by (simp add: handle_def)
next
  case Cancel
  then show ?thesis by (simp add: handle_def onDragCancel_def refKnown_def falsy_def)
next
  case (Select x b)
  with assms show ?thesis
    by (auto simp: handle_def onSelectionChanged_def refKnown_def)
next
  case (DocumentClick x y)
  with assms show ?thesis by (auto simp: handle_def clearSelection_def refKnown_def)
qed

lemma run_total:
  "refKnown s \<Longrightarrow> \<exists>s'. run p evs s = Inr s' \<and> refKnown s'"
proof (induction evs arbitrary: s)
  case Nil
  then show ?case by simp
next
  case (Cons e evs)
  from handle_total [OF Cons.prems, of p e] obtain s1 where
    s1: "handle p s e = Inr s1" "refKnown s1" by blast
  from Cons.IH [OF s1(2)] s1(1) show ?case by simp
qed

lemma gesture_total:
  "\<exists>s'. run p (Start active # evs) s = Inr s'"
proof -
  from onDragStart_total obtain s1 where s1: "onDragStart s active = Inr s1" by blast
  from run_total [OF onDragStart_refKnown [OF s1], of p evs] s1 show ?thesis
    by (auto simp: handle_def)
qed

lemma run_moves_clonedItems:
  "run p (map (\<lambda>(overOpt, draggingRect). Move overOpt draggingRect) moves) s = Inr s' \<Longrightarrow>
   clonedItems s' = clonedItems s"
proof (induction moves arbitrary: s)
  case Nil
  then show ?case by simp
next
  case (Cons m moves)
  obtain ovo r where m: "m = (ovo, r)" by (cases m)
  from Cons.prems m obtain s1 where h: "onDragOver p s ovo r = Inr s1"
    and r: "run p (map (\<lambda>(overOpt, draggingRect). Move overOpt draggingRect) moves) s1 = Inr s'"
    by (auto simp: handle_def split: sum.splits)
  from Cons.IH [OF r] onDragOver_clonedItems [OF h] show ?case by simp
qed

lemma handle_selection_distinct:
  assumes "distinct (selectedItems s)" and "handle p s e = Inr s'"
  shows "distinct (selectedItems s')"
proof (cases e)
  case (Start a)
  with assms onDragStart_selectedItems [of s a s'] show ?thesis by (auto simp: handle_def)
next
  case (Move ovo r)
  with assms onDragOver_selectedItems [of p s ovo r s'] show ?thesis by (auto simp: handle_def)
next
  case (End ovo)
  with assms onDragEnd_selectedItems [of p s ovo s'] show ?thesis by (auto simp: handle_def)
next
  case Cancel
  with assms show ?thesis by (auto simp: handle_def onDragCancel_def split: option.splits)
next
  case (Select x b)
  with assms show ?thesis
    by (auto simp: handle_def onSelectionChanged_def isItemSelected_def)
next
  case (DocumentClick x y)
  with assms show ?thesis by (auto simp: handle_def clearSelection_def)
qed

lemma rectIntersection_trash:
  assumes "(TRASH_DROPPABLE_ID, r) \<in> set clientRects" "intersects r rect"
  shows "rectIntersection (filter (\<lambda>(ident, r). ident = TRASH_DROPPABLE_ID) clientRects) rect
           = Some TRASH_DROPPABLE_ID"
  using assms by (induction clientRects) auto

subsection \<open>The invariant of the drag events\<close>











section \<open>The claims\<close>

subsection \<open>C1: the partition of the items over the containers\<close>




subsection \<open>C2: cancellation restores the mapping\<close>

text \<open>
  C2: whatever live moves follow a gesture start, \<^verbatim>\<open>onDragCancel\<close> puts back the
  mapping the gesture started from (the one \<^verbatim>\<open>onDragStart\<close> stored in
  \<^verbatim>\<open>clonedItems\<close>, before it took the other selected items out). The run of the
  start, the moves and the cancellation is taken without a throw from every state,
  for every active item, every selection and every platform.
\<close>

theorem cancel_restores_snapshot:
  "(run p (Start active # map (\<lambda>(overOpt, draggingRect). Move overOpt draggingRect) moves) s
      = Inr s2 \<longrightarrow>
    run p (Start active # map (\<lambda>(overOpt, draggingRect). Move overOpt draggingRect) moves
             @ [Cancel]) s = Inr (onDragCancel s2) \<and>
    items (onDragCancel s2) = items s) \<and>
   (\<exists>s'. run p (Start active # map (\<lambda>(overOpt, draggingRect). Move overOpt draggingRect) moves
                  @ [Cancel]) s = Inr s' \<and>
         items s' = items s)"
proof -
  let ?ms = "map (\<lambda>(overOpt, draggingRect). Move overOpt draggingRect) moves"
  have restored: "run p ((Start active # ?ms) @ [Cancel]) s = Inr (onDragCancel s2) \<and>
                  items (onDragCancel s2) = items s"
    if run: "run p (Start active # ?ms) s = Inr s2" for s2
  proof -
    from run obtain s1 where st: "onDragStart s active = Inr s1" and r: "run p ?ms s1 = Inr s2"
      by (auto simp: handle_def split: sum.splits)
    have "clonedItems s2 = Some (items s)"
      using run_moves_clonedItems [OF r] onDragStart_clonedItems [OF st] by simp
    then have "items (onDragCancel s2) = items s" by (simp add: onDragCancel_def)
    moreover have "run p ((Start active # ?ms) @ [Cancel]) s = Inr (onDragCancel s2)"
      unfolding run_append using run by (simp add: handle_def)
    ultimately show ?thesis by simp
  qed
  have "\<exists>s'. run p ((Start active # ?ms) @ [Cancel]) s = Inr s' \<and> items s' = items s"
  proof -
    from gesture_total [of p active ?ms s] obtain s2 where
      "run p (Start active # ?ms) s = Inr s2" by (rule exE)
    from restored [OF this] show ?thesis by blast
  qed
  with restored show ?thesis by simp
qed

text \<open>
  C2 at the story's initial state: \<open>A1\<close> is dragged into \<open>B\<close>, then into \<open>C\<close>, and the
  gesture is cancelled.
\<close>

theorem cancel_restores_snapshot_witness:
  "run examplePlatform
     (Start ''A1'' # map (\<lambda>(overOpt, draggingRect). Move overOpt draggingRect)
          [(Some \<lparr>id' = ''B1'', clientRect = rectangle 220 40 200 40\<rparr>, rectangle 230 50 200 40),
           (Some \<lparr>id' = ''C0'', clientRect = rectangle 440 0 200 40\<rparr>, rectangle 450 10 200 40)])
     (initialState None)
    = Inr \<lparr>items = [(''A'', [Item ''A0'', Item ''A2'']),
                     (''B'', [Item ''B0'', Item ''B1'', Item ''B2'']),
                     (''C'', [Item ''A1'', Item ''C0'', Item ''C1'', Item ''C2'']), (''trash'', [])],
            selectedItems = [], clonedItems = Some defaultItems,
            activeId = Some ''A1'', activeContainerRef = Some ''C''\<rparr> \<and>
   (\<exists>s'. run examplePlatform
          (Start ''A1'' # map (\<lambda>(overOpt, draggingRect). Move overOpt draggingRect)
          [(Some \<lparr>id' = ''B1'', clientRect = rectangle 220 40 200 40\<rparr>, rectangle 230 50 200 40),
           (Some \<lparr>id' = ''C0'', clientRect = rectangle 440 0 200 40\<rparr>, rectangle 450 10 200 40)]
          @ [Cancel]) (initialState None) = Inr s' \<and> items s' = defaultItems)"
proof -
  have h: "run examplePlatform
     (Start ''A1'' # map (\<lambda>(overOpt, draggingRect). Move overOpt draggingRect)
          [(Some \<lparr>id' = ''B1'', clientRect = rectangle 220 40 200 40\<rparr>, rectangle 230 50 200 40),
           (Some \<lparr>id' = ''C0'', clientRect = rectangle 440 0 200 40\<rparr>, rectangle 450 10 200 40)])
     (initialState None)
    = Inr \<lparr>items = [(''A'', [Item ''A0'', Item ''A2'']),
                     (''B'', [Item ''B0'', Item ''B1'', Item ''B2'']),
                     (''C'', [Item ''A1'', Item ''C0'', Item ''C1'', Item ''C2'']), (''trash'', [])],
            selectedItems = [], clonedItems = Some defaultItems,
            activeId = Some ''A1'', activeContainerRef = Some ''C''\<rparr>"
    by (simp add: handler_defs rectangle_def)
  have i: "items (initialState None) = defaultItems" by (simp add: initialState_def)
  from cancel_restores_snapshot
         [of examplePlatform "''A1''"
             "[(Some \<lparr>id' = ''B1'', clientRect = rectangle 220 40 200 40\<rparr>, rectangle 230 50 200 40),
               (Some \<lparr>id' = ''C0'', clientRect = rectangle 440 0 200 40\<rparr>, rectangle 450 10 200 40)]"
             "initialState None"] h
  show ?thesis unfolding i by blast
qed

subsection \<open>C3: the trash wins the collision detection\<close>

text \<open>
  C3: when a rectangle registered under the trash identifier has a non-zero
  intersection with the dragged rectangle, \<^verbatim>\<open>customCollisionDetectionStrategy\<close> answers
  the trash identifier, whatever the other candidates are and whatever
  \<^verbatim>\<open>closestRect\<close> would answer.
\<close>

theorem collision_trash_priority:
  assumes "(TRASH_DROPPABLE_ID, trashRect) \<in> set clientRects"
    and "intersects trashRect rect"
  shows "customCollisionDetectionStrategy closestRect clientRects rect = Some TRASH_DROPPABLE_ID"
  using rectIntersection_trash [OF assms]
  by (simp add: customCollisionDetectionStrategy_def falsy_def TRASH_DROPPABLE_ID_def)

text \<open>
  C3 with a container that overlaps the dragged rectangle too and that
  \<^verbatim>\<open>closestRect\<close> would choose.
\<close>

theorem collision_trash_priority_witness:
  "(TRASH_DROPPABLE_ID, rectangle 100 500 300 60)
     \<in> set [(''A'', rectangle 0 0 200 600), (TRASH_DROPPABLE_ID, rectangle 100 500 300 60)] \<and>
   intersects (rectangle 100 500 300 60) (rectangle 150 480 200 40) \<and>
   intersects (rectangle 0 0 200 600) (rectangle 150 480 200 40) \<and>
   customCollisionDetectionStrategy (\<lambda>rects rect. Some ''A'')
     [(''A'', rectangle 0 0 200 600), (TRASH_DROPPABLE_ID, rectangle 100 500 300 60)]
     (rectangle 150 480 200 40) = Some TRASH_DROPPABLE_ID"
proof -
  have h1: "(TRASH_DROPPABLE_ID, rectangle 100 500 300 60)
     \<in> set [(''A'', rectangle 0 0 200 600), (TRASH_DROPPABLE_ID, rectangle 100 500 300 60)]"
    by simp
  have h2: "intersects (rectangle 100 500 300 60) (rectangle 150 480 200 40)"
    by (simp add: intersects_def rectangle_def)
  have h3: "intersects (rectangle 0 0 200 600) (rectangle 150 480 200 40)"
    by (simp add: intersects_def rectangle_def)
  from collision_trash_priority [OF h1 h2] h1 h2 h3 show ?thesis by simp
qed

subsection \<open>C4: a commit on the trash empties it\<close>

text \<open>
  C4: when a gesture is under way (an active item and a tracking container are
  recorded) and it ends on the trash identifier, the trash container's sequence is
  empty afterwards, whatever it held.
\<close>

theorem trash_commit_empties_trash:
  assumes "\<not> falsy (activeId s)" and "\<not> falsy (activeContainerRef s)"
    and "id' ov = TRASH_DROPPABLE_ID"
  shows "\<exists>s'. onDragEnd p s (Some ov) = Inr s' \<and> map_of (items s') TRASH_DROPPABLE_ID = Some []"
  using assms by (simp add: onDragEnd_def map_of_spread)

text \<open>
  C4 with a trash that holds an item of an earlier gesture and the active item.
\<close>

theorem trash_commit_empties_trash_witness:
  "\<not> falsy (activeId \<lparr>items = [(''A'', [Item ''A0'']), (''trash'', [Item ''B7'', Item ''A1''])],
            selectedItems = [],
            clonedItems = Some [(''A'', [Item ''A0'', Item ''A1'']), (''trash'', [Item ''B7''])],
            activeId = Some ''A1'', activeContainerRef = Some ''trash''\<rparr>) \<and>
   \<not> falsy (activeContainerRef \<lparr>items = [(''A'', [Item ''A0'']), (''trash'', [Item ''B7'', Item ''A1''])],
            selectedItems = [],
            clonedItems = Some [(''A'', [Item ''A0'', Item ''A1'']), (''trash'', [Item ''B7''])],
            activeId = Some ''A1'', activeContainerRef = Some ''trash''\<rparr>) \<and>
   id' \<lparr>id' = ''trash'', clientRect = rectangle 100 500 300 60\<rparr> = TRASH_DROPPABLE_ID \<and>
   (\<exists>s'. onDragEnd examplePlatform
           \<lparr>items = [(''A'', [Item ''A0'']), (''trash'', [Item ''B7'', Item ''A1''])],
            selectedItems = [],
            clonedItems = Some [(''A'', [Item ''A0'', Item ''A1'']), (''trash'', [Item ''B7''])],
            activeId = Some ''A1'', activeContainerRef = Some ''trash''\<rparr>
           (Some \<lparr>id' = ''trash'', clientRect = rectangle 100 500 300 60\<rparr>) = Inr s' \<and>
         map_of (items s') TRASH_DROPPABLE_ID = Some [])"
proof -
  let ?s = "\<lparr>items = [(''A'', [Item ''A0'']), (''trash'', [Item ''B7'', Item ''A1''])],
            selectedItems = [],
            clonedItems = Some [(''A'', [Item ''A0'', Item ''A1'']), (''trash'', [Item ''B7''])],
            activeId = Some ''A1'', activeContainerRef = Some ''trash''\<rparr>"
  let ?ov = "\<lparr>id' = ''trash'', clientRect = rectangle 100 500 300 60\<rparr>"
  have h1: "\<not> falsy (activeId ?s)" by (simp add: falsy_def)
  have h2: "\<not> falsy (activeContainerRef ?s)" by (simp add: falsy_def)
  have h3: "id' ?ov = TRASH_DROPPABLE_ID" by (simp add: TRASH_DROPPABLE_ID_def)
  from trash_commit_empties_trash [OF h1 h2 h3, of examplePlatform] h1 h2 h3 show ?thesis by blast
qed

subsection \<open>C5: the selection after a gesture\<close>

text \<open>
  C5, as stated: after a gesture that commits on the trash, or is cancelled, the
  selection is empty. This fails: \<open>A0\<close> is selected by a shift-click, dragged over the
  trash and released there; the commit empties the trash and the selection still
  holds \<open>A0\<close>.
\<close>

theorem trash_commit_keeps_selection:
  "run examplePlatform
     [Select ''A0'' True, Start ''A0'',
      Move (Some \<lparr>id' = ''trash'', clientRect = rectangle 0 500 300 60\<rparr>) (rectangle 0 480 200 40),
      End (Some \<lparr>id' = ''trash'', clientRect = rectangle 0 500 300 60\<rparr>)]
     (initialState None)
     = Inr \<lparr>items = [(''A'', [Item ''A1'', Item ''A2'']),
                      (''B'', [Item ''B0'', Item ''B1'', Item ''B2'']),
                      (''C'', [Item ''C0'', Item ''C1'', Item ''C2'']), (''trash'', [])],
             selectedItems = [''A0''], clonedItems = Some defaultItems,
             activeId = None, activeContainerRef = Some ''trash''\<rparr>"
  by (simp add: handler_defs rectangle_def)

text \<open>
  C5, amended: \<^verbatim>\<open>onDragEnd\<close> (on the trash or elsewhere) and \<^verbatim>\<open>onDragCancel\<close> leave
  the selection as it was; neither handler writes \<^verbatim>\<open>selectedItems\<close>.
\<close>

theorem end_and_cancel_keep_selection:
  "(onDragEnd p s overOpt = Inr s' \<longrightarrow> selectedItems s' = selectedItems s) \<and>
   selectedItems (onDragCancel s) = selectedItems s"
  by (auto simp: onDragEnd_selectedItems onDragCancel_def split: option.splits)

text \<open>
  The amended C5 at a gesture that ends on the trash with \<open>A0\<close> selected.
\<close>

theorem end_and_cancel_keep_selection_witness:
  "onDragEnd examplePlatform
     \<lparr>items = [(''A'', [Item ''A1'']), (''trash'', [Item ''A0''])],
      selectedItems = [''A0''],
      clonedItems = Some [(''A'', [Item ''A0'', Item ''A1'']), (''trash'', [])],
      activeId = Some ''A0'', activeContainerRef = Some ''trash''\<rparr>
     (Some \<lparr>id' = ''trash'', clientRect = rectangle 100 500 300 60\<rparr>)
    = Inr \<lparr>items = [(''A'', [Item ''A1'']), (''trash'', [])],
            selectedItems = [''A0''],
            clonedItems = Some [(''A'', [Item ''A0'', Item ''A1'']), (''trash'', [])],
            activeId = None, activeContainerRef = Some ''trash''\<rparr> \<and>
   selectedItems \<lparr>items = [(''A'', [Item ''A1'']), (''trash'', [])],
            selectedItems = [''A0''],
            clonedItems = Some [(''A'', [Item ''A0'', Item ''A1'']), (''trash'', [])],
            activeId = None, activeContainerRef = Some ''trash''\<rparr> = [''A0''] \<and>
   selectedItems (onDragCancel \<lparr>items = [(''A'', [Item ''A1'']), (''trash'', [Item ''A0''])],
      selectedItems = [''A0''],
      clonedItems = Some [(''A'', [Item ''A0'', Item ''A1'']), (''trash'', [])],
      activeId = Some ''A0'', activeContainerRef = Some ''trash''\<rparr>) = [''A0'']"
proof -
  let ?s = "\<lparr>items = [(''A'', [Item ''A1'']), (''trash'', [Item ''A0''])],
      selectedItems = [''A0''],
      clonedItems = Some [(''A'', [Item ''A0'', Item ''A1'']), (''trash'', [])],
      activeId = Some ''A0'', activeContainerRef = Some ''trash''\<rparr>"
  let ?ov = "Some \<lparr>id' = ''trash'', clientRect = rectangle 100 500 300 60\<rparr>"
  let ?s' = "\<lparr>items = [(''A'', [Item ''A1'']), (''trash'', [])],
            selectedItems = [''A0''],
            clonedItems = Some [(''A'', [Item ''A0'', Item ''A1'']), (''trash'', [])],
            activeId = None, activeContainerRef = Some ''trash''\<rparr>"
  have h: "onDragEnd examplePlatform ?s ?ov = Inr ?s'" by (simp add: handler_defs)
  from end_and_cancel_keep_selection [of examplePlatform ?s ?ov ?s'] h show ?thesis by simp
qed

subsection \<open>C6: the scenario of a move of several items\<close>

text \<open>
  C6, as stated: with \<open>A0\<close> and \<open>A2\<close> selected and \<open>A = [A0, A1, A2]\<close>,
  \<open>B = [B0, B1, B2]\<close>, the commit of \<open>A1\<close> into \<open>B\<close> at index 0 gives
  \<open>B = [A1, A0, A2, B0, B1, B2]\<close>, the other selected items in their original relative
  order. This fails when \<open>A2\<close> is shift-clicked before \<open>A0\<close>: the selection is the
  same set, \<^verbatim>\<open>selectedItems\<close> is \<open>[A2, A0]\<close>, and the commit gives
  \<open>B = [A1, A2, A0, B0, B1, B2]\<close>.
\<close>

theorem multi_item_move_follows_click_order:
  "run examplePlatform
     [Select ''A2'' True, Select ''A0'' True, Start ''A1'',
      Move (Some \<lparr>id' = ''B0'', clientRect = rectangle 220 0 200 40\<rparr>) (rectangle 230 10 200 40),
      End (Some \<lparr>id' = ''A1'', clientRect = rectangle 220 0 200 40\<rparr>)]
     (initialState (Some [(''A'', [Item ''A0'', Item ''A1'', Item ''A2'']),
                          (''B'', [Item ''B0'', Item ''B1'', Item ''B2''])]))
    = Inr \<lparr>items = [(''A'', []),
                     (''B'', [Item ''A1'', Item ''A2'', Item ''A0'',
                              Item ''B0'', Item ''B1'', Item ''B2''])],
            selectedItems = [''A2'', ''A0'', ''A1''],
            clonedItems = Some [(''A'', [Item ''A0'', Item ''A1'', Item ''A2'']),
                                (''B'', [Item ''B0'', Item ''B1'', Item ''B2''])],
            activeId = None, activeContainerRef = Some ''B''\<rparr>"
  by (simp add: handler_defs rectangle_def)

text \<open>
  C6, amended: let \<open>A0\<close> and \<open>A2\<close> be selected by shift-clicks in any order, \<open>sel\<close>
  being the two identifiers in the order of the clicks, with \<open>A = [A0, A1, A2]\<close> and
  \<open>B = [B0, B1, B2]\<close>. The clicks leave the mapping as it was and the selection equal
  to \<open>sel\<close>. The gesture start on \<open>A1\<close> leaves \<open>A = [A1]\<close> and \<open>B\<close> as it was. The
  pointer then moves over \<open>B0\<close>, which puts \<open>A1\<close> at index 0 of \<open>B\<close>, and the gesture
  ends there (over the place \<open>A1\<close> now has, target index 0): \<open>A = []\<close> and \<open>B\<close> is
  \<open>A1\<close>, then the other selected items in the order of the clicks, then
  \<open>B0, B1, B2\<close>; for any rectangles and any platform.
\<close>

theorem multi_item_move_scenario:
  assumes "distinct sel" and "set sel = {''A0'', ''A2''}"
  shows
  "(\<exists>s0. run p (map (\<lambda>ident. Select ident True) sel)
             (initialState (Some [(''A'', [Item ''A0'', Item ''A1'', Item ''A2'']),
                                  (''B'', [Item ''B0'', Item ''B1'', Item ''B2''])])) = Inr s0 \<and>
          selectedItems s0 = sel \<and>
          items s0 = [(''A'', [Item ''A0'', Item ''A1'', Item ''A2'']),
                      (''B'', [Item ''B0'', Item ''B1'', Item ''B2''])]) \<and>
   (\<exists>s1. run p (map (\<lambda>ident. Select ident True) sel @ [Start ''A1''])
             (initialState (Some [(''A'', [Item ''A0'', Item ''A1'', Item ''A2'']),
                                  (''B'', [Item ''B0'', Item ''B1'', Item ''B2''])])) = Inr s1 \<and>
          items s1 = [(''A'', [Item ''A1'']), (''B'', [Item ''B0'', Item ''B1'', Item ''B2''])]) \<and>
   (\<exists>s2. run p (map (\<lambda>ident. Select ident True) sel @
                 [Start ''A1'',
                  Move (Some \<lparr>id' = ''B0'', clientRect = hovered\<rparr>) draggingRect,
                  End (Some \<lparr>id' = ''A1'', clientRect = dropped\<rparr>)])
             (initialState (Some [(''A'', [Item ''A0'', Item ''A1'', Item ''A2'']),
                                  (''B'', [Item ''B0'', Item ''B1'', Item ''B2''])])) = Inr s2 \<and>
          items s2 = [(''A'', []),
                      (''B'', Item ''A1'' # map Item sel @ [Item ''B0'', Item ''B1'', Item ''B2''])])"
proof -
  from two_orders [OF assms] have "sel = [''A0'', ''A2''] \<or> sel = [''A2'', ''A0'']" by simp
  then show ?thesis
  proof
    assume "sel = [''A0'', ''A2'']"
    then show ?thesis by (simp add: handler_defs)
  next
    assume "sel = [''A2'', ''A0'']"
    then show ?thesis by (simp add: handler_defs)
  qed
qed

text \<open>
  The amended C6 with \<open>A0\<close> clicked before \<open>A2\<close>, the order in which the two items lie
  in \<open>A\<close>: then \<open>B = [A1, A0, A2, B0, B1, B2]\<close>.
\<close>

theorem multi_item_move_scenario_witness:
  "distinct [''A0'', ''A2''] \<and> set [''A0'', ''A2''] = {''A0'', ''A2''} \<and>
   (\<exists>s2. run examplePlatform
             [Select ''A0'' True, Select ''A2'' True, Start ''A1'',
              Move (Some \<lparr>id' = ''B0'', clientRect = rectangle 220 0 200 40\<rparr>) (rectangle 230 10 200 40),
              End (Some \<lparr>id' = ''A1'', clientRect = rectangle 220 0 200 40\<rparr>)]
             (initialState (Some [(''A'', [Item ''A0'', Item ''A1'', Item ''A2'']),
                                  (''B'', [Item ''B0'', Item ''B1'', Item ''B2''])])) = Inr s2 \<and>
          items s2 = [(''A'', []),
                      (''B'', [Item ''A1'', Item ''A0'', Item ''A2'',
                               Item ''B0'', Item ''B1'', Item ''B2''])])"
proof -
  have h1: "distinct [''A0'', ''A2'']" by simp
  have h2: "set [''A0'', ''A2''] = {''A0'', ''A2''}" by simp
  from multi_item_move_scenario [OF h1 h2, of examplePlatform "rectangle 220 0 200 40"
         "rectangle 230 10 200 40" "rectangle 220 0 200 40"]
  have "\<exists>s2. run examplePlatform
             (map (\<lambda>ident. Select ident True) [''A0'', ''A2''] @
                 [Start ''A1'',
                  Move (Some \<lparr>id' = ''B0'', clientRect = rectangle 220 0 200 40\<rparr>) (rectangle 230 10 200 40),
                  End (Some \<lparr>id' = ''A1'', clientRect = rectangle 220 0 200 40\<rparr>)])
             (initialState (Some [(''A'', [Item ''A0'', Item ''A1'', Item ''A2'']),
                                  (''B'', [Item ''B0'', Item ''B1'', Item ''B2''])])) = Inr s2 \<and>
          items s2 = [(''A'', []),
                      (''B'', Item ''A1'' # map Item [''A0'', ''A2''] @
                              [Item ''B0'', Item ''B1'', Item ''B2''])]"
    by (elim conjE)
  then obtain s2 where
    "run examplePlatform
             (map (\<lambda>ident. Select ident True) [''A0'', ''A2''] @
                 [Start ''A1'',
                  Move (Some \<lparr>id' = ''B0'', clientRect = rectangle 220 0 200 40\<rparr>) (rectangle 230 10 200 40),
                  End (Some \<lparr>id' = ''A1'', clientRect = rectangle 220 0 200 40\<rparr>)])
             (initialState (Some [(''A'', [Item ''A0'', Item ''A1'', Item ''A2'']),
                                  (''B'', [Item ''B0'', Item ''B1'', Item ''B2''])])) = Inr s2"
    and "items s2 = [(''A'', []),
                      (''B'', Item ''A1'' # map Item [''A0'', ''A2''] @
                              [Item ''B0'', Item ''B1'', Item ''B2''])]"
    by blast
  then have "run examplePlatform
             [Select ''A0'' True, Select ''A2'' True, Start ''A1'',
              Move (Some \<lparr>id' = ''B0'', clientRect = rectangle 220 0 200 40\<rparr>) (rectangle 230 10 200 40),
              End (Some \<lparr>id' = ''A1'', clientRect = rectangle 220 0 200 40\<rparr>)]
             (initialState (Some [(''A'', [Item ''A0'', Item ''A1'', Item ''A2'']),
                                  (''B'', [Item ''B0'', Item ''B1'', Item ''B2''])])) = Inr s2 \<and>
          items s2 = [(''A'', []),
                      (''B'', [Item ''A1'', Item ''A0'', Item ''A2'',
                               Item ''B0'', Item ''B1'', Item ''B2''])]"
    by simp
  with h1 h2 show ?thesis by blast
qed

subsection \<open>C7: the scenario of a move of one item\<close>

text \<open>
  C7: with nothing selected and \<open>A = [A0, A1, A2]\<close>, \<open>B = [B0, B1, B2]\<close>, \<open>A1\<close> is
  dragged over \<open>B1\<close>, which puts it at index 1 of \<open>B\<close>, and released there (over the
  place \<open>A1\<close> now has, target index 1): \<open>A = [A0, A2]\<close> and \<open>B = [B0, A1, B1, B2]\<close>,
  for any rectangles and any platform.
\<close>

theorem single_move_scenario:
  "\<exists>s'. run p [Start ''A1'',
               Move (Some \<lparr>id' = ''B1'', clientRect = hovered\<rparr>) draggingRect,
               End (Some \<lparr>id' = ''A1'', clientRect = dropped\<rparr>)]
             (initialState (Some [(''A'', [Item ''A0'', Item ''A1'', Item ''A2'']),
                                  (''B'', [Item ''B0'', Item ''B1'', Item ''B2''])])) = Inr s' \<and>
        items s' = [(''A'', [Item ''A0'', Item ''A2'']),
                    (''B'', [Item ''B0'', Item ''A1'', Item ''B1'', Item ''B2''])]"
  by (simp add: handler_defs)

subsection \<open>C8: a live move onto a container's surface\<close>

text \<open>
  C8: during a gesture whose active item lies in the tracking container, a move over
  an identifier that resolves to another container and does not occur in that
  container's sequence appends the active item to that sequence and takes it out of
  the tracking container's.
\<close>

theorem live_move_onto_container_surface:
  assumes "activeId s = Some active" and "active \<noteq> []"
    and "activeContainerRef s = Some activeContainer" and "activeContainer \<noteq> []"
    and "findContainer (items s) (id' ov) = Some overContainer" and "overContainer \<noteq> []"
    and "overContainer \<noteq> activeContainer"
    and "map_of (items s) activeContainer = Some activeItems"
    and "map_of (items s) overContainer = Some overItems"
    and "Item (id' ov) \<notin> set overItems"
    and "Item active \<in> set activeItems"
  shows "\<exists>s'. onDragOver p s (Some ov) draggingRect = Inr s' \<and>
           map_of (items s') overContainer = Some (overItems @ [Item active]) \<and>
           map_of (items s') activeContainer
             = Some (filter (\<lambda>item. item \<noteq> Item active) activeItems)"
proof -
  have oi: "indexOf overItems (Item (id' ov)) = - 1" using assms(10) by (rule indexOf_notin)
  have el: "elementAt activeItems (indexOf activeItems (Item active)) = Item active"
    using assms(11) by (simp add: elementAt_indexOf)
  show ?thesis
    using assms(1-9) oi el
    by (simp add: onDragOver_def falsy_def Let_def map_of_spread slice_from_0 slice_to_end)
qed

text \<open>
  C8 with \<open>A1\<close> dragged from \<open>A\<close> over the empty container \<open>B\<close>.
\<close>

theorem live_move_onto_container_surface_witness:
  "(\<exists>s'. onDragOver examplePlatform
            \<lparr>items = [(''A'', [Item ''A0'', Item ''A1'']), (''B'', [])],
             selectedItems = [],
             clonedItems = Some [(''A'', [Item ''A0'', Item ''A1'']), (''B'', [])],
             activeId = Some ''A1'', activeContainerRef = Some ''A''\<rparr>
            (Some \<lparr>id' = ''B'', clientRect = rectangle 220 0 200 400\<rparr>) (rectangle 230 50 200 40)
          = Inr s' \<and>
          map_of (items s') ''B'' = Some [Item ''A1''] \<and>
          map_of (items s') ''A'' = Some [Item ''A0''])"
proof -
  let ?s = "\<lparr>items = [(''A'', [Item ''A0'', Item ''A1'']), (''B'', [])],
             selectedItems = [],
             clonedItems = Some [(''A'', [Item ''A0'', Item ''A1'']), (''B'', [])],
             activeId = Some ''A1'', activeContainerRef = Some ''A''\<rparr>"
  let ?ov = "\<lparr>id' = ''B'', clientRect = rectangle 220 0 200 400\<rparr>"
  have "\<exists>s'. onDragOver examplePlatform ?s (Some ?ov) (rectangle 230 50 200 40) = Inr s' \<and>
           map_of (items s') ''B'' = Some ([] @ [Item ''A1'']) \<and>
           map_of (items s') ''A''
             = Some (filter (\<lambda>item. item \<noteq> Item ''A1'') [Item ''A0'', Item ''A1''])"
    by (rule live_move_onto_container_surface [where active = "''A1''"])
       (simp_all add: findContainer_def)
  then show ?thesis by simp
qed

subsection \<open>C9: a drop on the active item's own place\<close>

text \<open>
  C9: when no item other than the active one is selected and a gesture ends over an
  identifier other than the trash that resolves to the tracking container, at the
  index the active item has there, the mapping is left as it was. With an empty
  selection \<^verbatim>\<open>onDragEnd\<close> writes nothing; with the active item alone selected it
  writes the same sequence back.
\<close>

theorem no_op_drop:
  assumes "activeId s = Some active" and "active \<noteq> []"
    and "filter (\<lambda>item. item \<noteq> active) (selectedItems s) = []"
    and "activeContainerRef s = Some container" and "container \<noteq> []"
    and "findContainer (items s) (id' ov) = Some container"
    and "id' ov \<noteq> TRASH_DROPPABLE_ID"
    and "map_of (items s) container = Some seq"
    and "Item active \<in> set seq"
    and "indexOf seq (Item active) = indexOf seq (Item (id' ov))"
  shows "\<exists>s'. onDragEnd p s (Some ov) = Inr s' \<and> items s' = items s"
proof -
  from assms(9)
  have "arrayMoveCall p seq (indexOf seq (Item active)) (indexOf seq (Item active)) = seq"
    by (rule arrayMoveCall_same)
  with assms show ?thesis
    by (simp add: onDragEnd_def falsy_def Let_def spliceInsert_def spread_same)
qed

text \<open>
  C9 with \<open>A1\<close> released over itself in \<open>B\<close>.
\<close>

theorem no_op_drop_witness:
  "(\<exists>s'. onDragEnd examplePlatform
            \<lparr>items = [(''A'', [Item ''A0'', Item ''A2'']),
                      (''B'', [Item ''B0'', Item ''A1'', Item ''B1'', Item ''B2''])],
             selectedItems = [],
             clonedItems = Some [(''A'', [Item ''A0'', Item ''A1'', Item ''A2'']),
                                 (''B'', [Item ''B0'', Item ''B1'', Item ''B2''])],
             activeId = Some ''A1'', activeContainerRef = Some ''B''\<rparr>
            (Some \<lparr>id' = ''A1'', clientRect = rectangle 220 40 200 40\<rparr>) = Inr s' \<and>
          items s' = [(''A'', [Item ''A0'', Item ''A2'']),
                      (''B'', [Item ''B0'', Item ''A1'', Item ''B1'', Item ''B2''])])"
proof -
  let ?s = "\<lparr>items = [(''A'', [Item ''A0'', Item ''A2'']),
                      (''B'', [Item ''B0'', Item ''A1'', Item ''B1'', Item ''B2''])],
             selectedItems = [],
             clonedItems = Some [(''A'', [Item ''A0'', Item ''A1'', Item ''A2'']),
                                 (''B'', [Item ''B0'', Item ''B1'', Item ''B2''])],
             activeId = Some ''A1'', activeContainerRef = Some ''B''\<rparr>"
  let ?ov = "\<lparr>id' = ''A1'', clientRect = rectangle 220 40 200 40\<rparr>"
  have "\<exists>s'. onDragEnd examplePlatform ?s (Some ?ov) = Inr s' \<and> items s' = items ?s"
    by (rule no_op_drop [where active = "''A1''" and container = "''B''"
                           and seq = "[Item ''B0'', Item ''A1'', Item ''B1'', Item ''B2'']"])
       (simp_all add: findContainer_def TRASH_DROPPABLE_ID_def)
  then show ?thesis by simp
qed

subsection \<open>C10: the selection holds no identifier twice\<close>

text \<open>
  C10: a selection without duplicates stays without duplicates under every event:
  shift-click, plain click, click outside the items, and the four events of a gesture
  (the gesture start adds the active item only when it is not selected yet). The
  component starts with the empty selection.
\<close>

theorem selection_has_no_duplicates:
  assumes "distinct (selectedItems s0)" and "run p evs s0 = Inr s"
  shows "distinct (selectedItems s)"
  using assms
proof (induction evs arbitrary: s0)
  case Nil
  then show ?case by simp
next
  case (Cons e evs)
  from Cons.prems(2) obtain s1 where h: "handle p s0 e = Inr s1" and r: "run p evs s1 = Inr s"
    by (auto split: sum.splits)
  from handle_selection_distinct [OF Cons.prems(1) h] have "distinct (selectedItems s1)" .
  from Cons.IH [OF this r] show ?case .
qed

text \<open>
  C10 from the story's initial state, with shift-clicks that select, deselect and
  select again, and two gesture starts on an item that is not selected at first.
\<close>

theorem selection_has_no_duplicates_witness:
  "distinct (selectedItems (initialState None)) \<and>
   run examplePlatform
       [Select ''A0'' True, Select ''A2'' True, Select ''A0'' True, Select ''A0'' True,
        Start ''A1'', Cancel, Start ''A1'']
     (initialState None)
    = Inr \<lparr>items = [(''A'', [Item ''A1'']), (''B'', [Item ''B0'', Item ''B1'', Item ''B2'']),
                     (''C'', [Item ''C0'', Item ''C1'', Item ''C2'']), (''trash'', [])],
            selectedItems = [''A2'', ''A0'', ''A1''], clonedItems = Some defaultItems,
            activeId = Some ''A1'', activeContainerRef = Some ''A''\<rparr> \<and>
   distinct [''A2'', ''A0'', ''A1'']"
proof -
  have h1: "distinct (selectedItems (initialState None))" by (simp add: initialState_def)
  have h2: "run examplePlatform
       [Select ''A0'' True, Select ''A2'' True, Select ''A0'' True, Select ''A0'' True,
        Start ''A1'', Cancel, Start ''A1'']
     (initialState None)
    = Inr \<lparr>items = [(''A'', [Item ''A1'']), (''B'', [Item ''B0'', Item ''B1'', Item ''B2'']),
                     (''C'', [Item ''C0'', Item ''C1'', Item ''C2'']), (''trash'', [])],
            selectedItems = [''A2'', ''A0'', ''A1''], clonedItems = Some defaultItems,
            activeId = Some ''A1'', activeContainerRef = Some ''A''\<rparr>"
    by (simp add: handler_defs)
  from selection_has_no_duplicates [OF h1 h2] h1 h2 show ?thesis by simp
qed

end
